theory Spec2Isabelle
  imports Complex_Main "HOL-Library.Word"
begin

unbundle bit_operations_syntax

section \<open>The melody generator of melody-generator.ts\<close>

text \<open>
  Numbers. The source computes with JavaScript numbers (doubles). The model uses
  \<^item> \<open>int\<close> for MIDI pitches and the measure count (the values \<open>parseInt\<close> gives),
  \<^item> \<open>32 word\<close> for the values of the bitwise operators and of \<open>Math.imul\<close>,
  \<^item> \<open>nat\<close> for the counter \<open>a\<close> of \<open>mulberry32\<close>, with the rounding of its double
    addition written out (\<open>fl_nat\<close>),
  \<^item> \<open>rat\<close> for draws, durations and times.
  On the default pool every duration, every partial sum \<open>used\<close> and every start time is a
  multiple of 1/16 (of 1/4 after the conversion to beats), which doubles hold and add
  without rounding; the comparisons against \<open>1 - EPS\<close> and \<open>remaining + EPS\<close> have the same
  outcome for the double nearest to 1e-6 as for the rational 1/1000000, since both lie
  strictly between 0 and 1/16. Start times stay exact below \<open>2^51\<close> beats. A draw of the
  seeded generator is \<open>k / 2^32\<close> with \<open>k < 2^32\<close>: its products with 4 or with a length
  of at most 5 are exact. Any double is below the double nearest to 0.8 exactly when it is
  below 4/5 (no double lies between the two). For a draw of \<open>Math.random\<close> the product with
  a length of 3 or 5 is rounded before \<open>Math.floor\<close>, where the model takes the exact
  product: the index can differ for a draw within one rounding error below a multiple of
  1/3 or 1/5, and is below the length in both. Integer division of a pitch by 12 is exact
  for pitches below \<open>2^49\<close> in absolute value.

  \<open>undefined\<close> and \<open>NaN\<close> have no counterpart in these types. They enter the source in
  one way only: an array read at \<open>Math.floor(rand() * length)\<close> when the draw is outside
  [0,1). The model stops there with \<open>Inl NaN\<close>; the source would go on computing with
  \<open>NaN\<close>.
\<close>

datatype error = NaN

text \<open>\<open>xs[i]\<close>: an index outside the array reads \<open>undefined\<close>.\<close>

definition js_index :: "'a list \<Rightarrow> int \<Rightarrow> error + 'a" where
  "js_index xs i = (if 0 \<le> i \<and> i < int (length xs) then Inr (xs ! nat i) else Inl NaN)"

subsection \<open>Seeded RNG (xmur3, mulberry32)\<close>

text \<open>A JavaScript string is a sequence of UTF-16 code units.\<close>

type_synonym jsstring = "16 word list"

definition utf16 :: "string \<Rightarrow> jsstring" where
  "utf16 cs = map (\<lambda>c. of_nat (of_char c)) cs"

definition imul :: "32 word \<Rightarrow> 32 word \<Rightarrow> 32 word" where
  "imul a b = a * b"

text \<open>The body of the \<open>for\<close> loop of \<open>xmur3\<close>, for one code unit.\<close>

definition xmur3_mix :: "32 word \<Rightarrow> 16 word \<Rightarrow> 32 word" where
  "xmur3_mix h c =
     (let h = imul (h XOR ucast c) 3432918353
      in push_bit 13 h OR drop_bit 19 h)"

text \<open>\<open>xmur3 str\<close> is the variable \<open>h\<close> that the returned closure captures.\<close>

definition xmur3 :: "jsstring \<Rightarrow> 32 word" where
  "xmur3 str = foldl xmur3_mix (1779033703 XOR of_nat (length str)) str"

text \<open>One call of the closure that \<open>xmur3\<close> returns: the value and the new \<open>h\<close>.\<close>

definition xmur3_call :: "32 word \<Rightarrow> nat \<times> 32 word" where
  "xmur3_call h =
     (let h = imul (h XOR drop_bit 16 h) 2246822507;
          h = imul (h XOR drop_bit 13 h) 3266489909;
          h = h XOR drop_bit 16 h
      in (unat h, h))"

fun bit_length :: "nat \<Rightarrow> nat" where
  "bit_length n = (if n = 0 then 0 else Suc (bit_length (n div 2)))"

text \<open>
  The double nearest to a natural number, ties to even: numbers of more than 53 bits lose
  their low bits. \<open>a += 0x6d2b79f5\<close> in \<open>mulberry32\<close> is an addition of doubles, not of
  32-bit integers, so \<open>a\<close> grows past \<open>2^53\<close> after some millions of draws.
\<close>

definition fl_nat :: "nat \<Rightarrow> nat" where
  "fl_nat n =
     (let e = bit_length n - 53; q = n div 2 ^ e; r = n mod 2 ^ e
      in if 2 * r < 2 ^ e then q * 2 ^ e
         else if 2 ^ e < 2 * r then (q + 1) * 2 ^ e
         else (if even q then q else q + 1) * 2 ^ e)"

text \<open>
  One call of the closure that \<open>mulberry32\<close> returns, on its captured \<open>a\<close>: the draw and
  the new \<open>a\<close>. \<open>0x6d2b79f5 = 1831565813\<close>, \<open>4294967296 = 2^32\<close>. The bitwise operators
  read \<open>a\<close> modulo \<open>2^32\<close>.
\<close>

definition mulberry32_call :: "nat \<Rightarrow> rat \<times> nat" where
  "mulberry32_call a =
     (let a = fl_nat (a + 1831565813);
          t = (of_nat a :: 32 word);
          t = imul (t XOR drop_bit 15 t) (t OR 1);
          t = t XOR (t + imul (t XOR drop_bit 7 t) (t OR 61))
      in (of_nat (unat (t XOR drop_bit 14 t)) / 4294967296, a))"

text \<open>
  A random source is a closure \<open>rand: () => number\<close>: in the model a function from the
  captured state to the draw and the new state. The two sources of \<open>makePRNG\<close>:
  the seeded generator with its counter, and \<open>Math.random\<close>, whose values in one run are
  a sequence given from outside, read at a position.
\<close>

datatype prng = Mulberry32 nat | MathRandom "nat \<Rightarrow> rat" nat

fun rand_call :: "prng \<Rightarrow> rat \<times> prng" where
  "rand_call (Mulberry32 a) = (let (r, a') = mulberry32_call a in (r, Mulberry32 a'))"
| "rand_call (MathRandom f n) = (f n, MathRandom f (Suc n))"

text \<open>\<open>!seed\<close> holds for a missing seed and for the empty string.\<close>

definition makePRNG :: "(nat \<Rightarrow> rat) \<Rightarrow> jsstring option \<Rightarrow> prng" where
  "makePRNG Math_random seed =
     (case seed of
        None \<Rightarrow> MathRandom Math_random 0
      | Some str \<Rightarrow>
          if str = [] then MathRandom Math_random 0
          else (let seedFn = xmur3 str in Mulberry32 (fst (xmur3_call seedFn))))"

subsection \<open>Note names\<close>

definition SHARP_NOTE_ORDER :: "string list" where
  "SHARP_NOTE_ORDER =
     [''C'', ''C#'', ''D'', ''D#'', ''E'', ''F'', ''F#'', ''G'', ''G#'', ''A'', ''A#'', ''B'']"

fun digits :: "nat \<Rightarrow> string" where
  "digits n = (if n < 10 then [''0123456789'' ! n]
               else digits (n div 10) @ [''0123456789'' ! (n mod 10)])"

text \<open>The string of an integer, as a template literal prints it (below \<open>10^21\<close>).\<close>

definition String_int :: "int \<Rightarrow> string" where
  "String_int i = (if i < 0 then ''-'' @ digits (nat (- i)) else digits (nat i))"

text \<open>
  \<open>%\<close> takes the sign of the dividend, so a negative pitch that is no multiple of 12
  reads the table at a negative index and prints \<open>undefined\<close>.
\<close>

definition midiToName :: "int \<Rightarrow> string" where
  "midiToName midi =
     (let pc = sgn midi * (\<bar>midi\<bar> mod 12);
          octave = midi div 12 - 1
      in (case js_index SHARP_NOTE_ORDER pc of Inl _ \<Rightarrow> ''undefined'' | Inr n \<Rightarrow> n)
         @ String_int octave)"

definition clamp :: "int \<Rightarrow> int \<Rightarrow> int \<Rightarrow> int" where
  "clamp n lo hi = max lo (min hi n)"

subsection \<open>Pitch generation\<close>

definition nextMidi ::
  "('s \<Rightarrow> rat \<times> 's) \<Rightarrow> 's \<Rightarrow> int \<Rightarrow> int \<Rightarrow> int \<Rightarrow> error + int \<times> 's" where
  "nextMidi rand s current low high =
     (let stepProb = 4 / 5;
          (r1, s1) = rand s;
          (r2, s2) = rand s1;
          delta = (if r1 < stepProb
                   then (let choices = [- 2, - 1, 1, 2]
                         in js_index choices \<lfloor>r2 * of_nat (length choices)\<rfloor>)
                   else (let leaps = [- 7, - 5, 5, 7]
                         in js_index leaps \<lfloor>r2 * of_nat (length leaps)\<rfloor>))
      in case delta of
           Inl e \<Rightarrow> Inl e
         | Inr d \<Rightarrow>
             (let candidate = current + d
              in Inr (if candidate < low \<or> candidate > high
                      then clamp candidate low high else candidate, s2)))"

text \<open>
  The pitch walk as the specification words it: the step or leap table by the first draw,
  the entry by the quarter of [0,1) the second draw lies in, and the nearest bound when the
  sum leaves the range.
\<close>

definition delta_of_draws :: "rat \<Rightarrow> rat \<Rightarrow> int" where
  "delta_of_draws r1 r2 =
     (if r1 < 4 / 5
      then (if r2 < 1 / 4 then - 2 else if r2 < 1 / 2 then - 1 else if r2 < 3 / 4 then 1 else 2)
      else (if r2 < 1 / 4 then - 7 else if r2 < 1 / 2 then - 5 else if r2 < 3 / 4 then 5 else 7))"

definition nearest_in_range :: "int \<Rightarrow> int \<Rightarrow> int \<Rightarrow> int" where
  "nearest_in_range low high c = (if c < low then low else if high < c then high else c)"

text \<open>The draws of a source from a state on, and the sources that stay in [0,1).\<close>

definition draws :: "('s \<Rightarrow> rat \<times> 's) \<Rightarrow> 's \<Rightarrow> nat \<Rightarrow> rat" where
  "draws rand s n = fst (rand (((\<lambda>s. snd (rand s)) ^^ n) s))"

definition unit_source :: "('s \<Rightarrow> rat \<times> 's) \<Rightarrow> 's \<Rightarrow> bool" where
  "unit_source rand s \<longleftrightarrow> (\<forall>n. 0 \<le> draws rand s n \<and> draws rand s n < 1)"

subsection \<open>Rhythm generation\<close>

definition RHYTHM_POOL :: "rat list" where
  "RHYTHM_POOL = [1, 1 / 2, 1 / 4, 1 / 8, 1 / 16]"

definition EPS :: rat where
  "EPS = 1 / 1000000"

text \<open>
  The \<open>while\<close> loop of \<open>generateMeasureDurations\<close>, on its variables \<open>durations\<close> and
  \<open>used\<close> and the state of the source. A pool with an entry that is not positive can keep
  it running forever: not returning is \<open>None\<close>.
\<close>

partial_function (option) measure_loop ::
  "('s \<Rightarrow> rat \<times> 's) \<Rightarrow> rat list \<Rightarrow> rat list \<Rightarrow> rat \<Rightarrow> 's \<Rightarrow> (error + rat list \<times> 's) option" where
  "measure_loop rand pool durations used s =
     (if used < 1 - EPS then
        (let remaining = 1 - used;
             candidates = filter (\<lambda>v. v \<le> remaining + EPS) pool
         in if length candidates = 0 then Some (Inr (durations @ [remaining], s))
            else (let (r, s') = rand s
                  in case js_index candidates \<lfloor>r * of_nat (length candidates)\<rfloor> of
                       Inl e \<Rightarrow> Some (Inl e)
                     | Inr val \<Rightarrow> measure_loop rand pool (durations @ [val]) (used + val) s'))
      else Some (Inr (durations, s)))"

declare measure_loop.simps [code]

text \<open>
  The snapping step after the loop. On an empty array \<open>durations[-1] += diff\<close> sets a
  property that is no element: the list stays as it is.
\<close>

definition snap :: "rat list \<Rightarrow> rat list" where
  "snap durations =
     (let total = foldl (+) 0 durations;
          diff = 1 - total
      in if \<bar>diff\<bar> > EPS
         then (if durations = [] then durations
               else durations[length durations - 1 :=
                      durations ! (length durations - 1) + diff])
         else durations)"

definition generateMeasureDurations ::
  "('s \<Rightarrow> rat \<times> 's) \<Rightarrow> rat list \<Rightarrow> 's \<Rightarrow> (error + rat list \<times> 's) option" where
  "generateMeasureDurations rand pool s =
     (case measure_loop rand pool [] 0 s of
        None \<Rightarrow> None
      | Some (Inl e) \<Rightarrow> Some (Inl e)
      | Some (Inr (durations, s')) \<Rightarrow> Some (Inr (snap durations, s')))"

text \<open>
  The states at the head of the loop in a run that starts the source at \<open>s0\<close>: the entry
  state, and the state after an iteration that took no \<open>break\<close>.
\<close>

inductive loop_head ::
  "('s \<Rightarrow> rat \<times> 's) \<Rightarrow> rat list \<Rightarrow> 's \<Rightarrow> rat list \<times> rat \<times> 's \<Rightarrow> bool"
  for rand :: "'s \<Rightarrow> rat \<times> 's" and pool :: "rat list" and s0 :: 's where
  enter: "loop_head rand pool s0 ([], 0, s0)"
| iterate:
    "loop_head rand pool s0 (durations, used, s) \<Longrightarrow>
     used < 1 - EPS \<Longrightarrow>
     candidates = filter (\<lambda>v. v \<le> (1 - used) + EPS) pool \<Longrightarrow>
     length candidates \<noteq> 0 \<Longrightarrow>
     rand s = (r, s') \<Longrightarrow>
     js_index candidates \<lfloor>r * of_nat (length candidates)\<rfloor> = Inr val \<Longrightarrow>
     loop_head rand pool s0 (durations @ [val], used + val, s')"

subsection \<open>Melody generation\<close>

record Params =
  measures :: int
  tempo :: int
  seed :: "jsstring option"
  lowMidi :: int
  highMidi :: int

record Note =
  midi :: int
  name :: string
  startBeats :: rat
  durationBeats :: rat

text \<open>The variables of \<open>generateMelody\<close> that its loops update, and the state of \<open>rand\<close>.\<close>

record 's run =
  events :: "Note list"
  tBeats :: rat
  currentMidi :: int
  rng :: 's

text \<open>The inner loop, over the durations of one measure.\<close>

fun for_frac ::
  "('s \<Rightarrow> rat \<times> 's) \<Rightarrow> int \<Rightarrow> int \<Rightarrow> rat list \<Rightarrow> 's run \<Rightarrow> error + 's run" where
  "for_frac rand low high [] st = Inr st"
| "for_frac rand low high (fr # fracs) st =
     (case nextMidi rand (rng st) (currentMidi st) low high of
        Inl e \<Rightarrow> Inl e
      | Inr (m, s') \<Rightarrow>
          (let beats = fr * 4
           in for_frac rand low high fracs
                \<lparr>events = events st @
                   [\<lparr>midi = m, name = midiToName m,
                     startBeats = tBeats st, durationBeats = beats\<rparr>],
                 tBeats = tBeats st + beats,
                 currentMidi = m,
                 rng = s'\<rparr>))"

text \<open>The outer loop, by the number of bars still to generate.\<close>

fun for_bar ::
  "('s \<Rightarrow> rat \<times> 's) \<Rightarrow> int \<Rightarrow> int \<Rightarrow> nat \<Rightarrow> 's run \<Rightarrow> (error + 's run) option" where
  "for_bar rand low high 0 st = Some (Inr st)"
| "for_bar rand low high (Suc n) st =
     (case generateMeasureDurations rand RHYTHM_POOL (rng st) of
        None \<Rightarrow> None
      | Some (Inl e) \<Rightarrow> Some (Inl e)
      | Some (Inr (dursWholeFractions, s')) \<Rightarrow>
          (case for_frac rand low high dursWholeFractions (st\<lparr>rng := s'\<rparr>) of
             Inl e \<Rightarrow> Some (Inl e)
           | Inr st' \<Rightarrow> for_bar rand low high n st'))"

text \<open>
  \<open>generateMelody\<close>, with the values that \<open>Math.random\<close> returns in this run as an
  argument. \<open>bar < params.measures\<close> holds for \<open>nat (measures params)\<close> bars.
\<close>

definition generateMelody :: "(nat \<Rightarrow> rat) \<Rightarrow> Params \<Rightarrow> (error + Note list) option" where
  "generateMelody Math_random params =
     (let rand = makePRNG Math_random (seed params);
          start = clamp 60 (lowMidi params) (highMidi params)
      in case for_bar rand_call (lowMidi params) (highMidi params) (nat (measures params))
                \<lparr>events = [], tBeats = 0, currentMidi = start, rng = rand\<rparr> of
           None \<Rightarrow> None
         | Some (Inl e) \<Rightarrow> Some (Inl e)
         | Some (Inr st) \<Rightarrow> Some (Inr (events st)))"

subsection \<open>MIDI export\<close>




subsection \<open>Notions used in the properties\<close>

text \<open>
  A list of notes fills the time from \<open>t\<close> to \<open>t'\<close> without gap or overlap: each note
  starts where the one before it ends.
\<close>

fun contiguous :: "rat \<Rightarrow> Note list \<Rightarrow> rat \<Rightarrow> bool" where
  "contiguous t [] t' = (t = t')"
| "contiguous t (e # es) t' = (startBeats e = t \<and> contiguous (t + durationBeats e) es t')"

text \<open>A run in which \<open>Math.random\<close> returns the same value at every call.\<close>

definition constant_draws :: "rat \<Rightarrow> nat \<Rightarrow> rat" where
  "constant_draws c n = c"

section \<open>Random sources\<close>

lemma unit_source_step:
  assumes "unit_source rand s"
  shows "0 \<le> fst (rand s)" and "fst (rand s) < 1" and "unit_source rand (snd (rand s))"
proof -
  from assms have "0 \<le> draws rand s 0 \<and> draws rand s 0 < 1"
    unfolding unit_source_def by blast
  then show "0 \<le> fst (rand s)" and "fst (rand s) < 1"
    by (simp_all add: draws_def)
  have "draws rand (snd (rand s)) n = draws rand s (Suc n)" for n
    using funpow_swap1 [of "\<lambda>s. snd (rand s)" n s] by (simp add: draws_def)
  with assms show "unit_source rand (snd (rand s))"
    unfolding unit_source_def by simp
qed

lemma uint32_fraction:
  fixes n :: nat
  assumes "n < 4294967296"
  shows "0 \<le> (of_nat n :: rat) / 4294967296 \<and> (of_nat n :: rat) / 4294967296 < 1"
proof -
  from assms have "(of_nat n :: rat) < of_nat 4294967296"
    unfolding of_nat_less_iff .
  then show ?thesis by simp
qed

lemma mulberry32_call_unit:
  "0 \<le> fst (mulberry32_call a) \<and> fst (mulberry32_call a) < 1"
proof -
  have "unat w < 4294967296" for w :: "32 word"
    using unsigned_less [of w, where ?'a = nat] by simp
  then show ?thesis
    unfolding mulberry32_call_def Let_def fst_conv by (rule uint32_fraction)
qed

lemma funpow_Mulberry32:
  "\<exists>b. ((\<lambda>s. snd (rand_call s)) ^^ n) (Mulberry32 a) = Mulberry32 b"
  by (induction n) (auto simp: split_def Let_def)

lemma unit_source_Mulberry32: "unit_source rand_call (Mulberry32 a)"
  unfolding unit_source_def draws_def
proof
  fix n
  obtain b where "((\<lambda>s. snd (rand_call s)) ^^ n) (Mulberry32 a) = Mulberry32 b"
    using funpow_Mulberry32 by blast
  then show "0 \<le> fst (rand_call (((\<lambda>s. snd (rand_call s)) ^^ n) (Mulberry32 a))) \<and>
    fst (rand_call (((\<lambda>s. snd (rand_call s)) ^^ n) (Mulberry32 a))) < 1"
    using mulberry32_call_unit [of b] by (simp add: split_def Let_def)
qed

lemma funpow_MathRandom:
  "((\<lambda>s. snd (rand_call s)) ^^ n) (MathRandom f k) = MathRandom f (k + n)"
  by (induction n) auto

lemma unit_source_MathRandom:
  assumes "\<forall>n. 0 \<le> f n \<and> f n < 1"
  shows "unit_source rand_call (MathRandom f k)"
  using assms by (simp add: unit_source_def draws_def funpow_MathRandom)

lemma unit_source_makePRNG:
  assumes "\<forall>n. 0 \<le> f n \<and> f n < 1"
  shows "unit_source rand_call (makePRNG f sd)"
  using assms
  by (auto simp: makePRNG_def Let_def unit_source_Mulberry32 unit_source_MathRandom
      split: option.splits)

lemma floor_times4:
  fixes r :: rat
  assumes "0 \<le> r" "r < 1"
  shows "\<lfloor>r * 4\<rfloor> = (if r < 1 / 4 then 0 else if r < 1 / 2 then 1 else if r < 3 / 4 then 2 else 3)"
  using assms by (auto simp: floor_eq_iff)

lemma nextMidi_unit:
  assumes "rand s = (r1, s1)" and "rand s1 = (r2, s2)" and "0 \<le> r2" and "r2 < 1"
  shows "nextMidi rand s current low high =
    Inr (let candidate = current + delta_of_draws r1 r2
         in if candidate < low \<or> candidate > high then clamp candidate low high else candidate, s2)"
  using assms
  by (simp add: nextMidi_def Let_def floor_times4 js_index_def delta_of_draws_def)

section \<open>The rhythm loop on the default pool\<close>

lemma foldl_plus_sum_list:
  fixes a :: rat
  shows "foldl (+) a xs = a + sum_list xs"
  by (induction xs arbitrary: a) (simp_all add: add.assoc)

lemma js_index_unit:
  assumes "0 \<le> r" and "r < 1" and "xs \<noteq> []"
  shows "\<exists>x. js_index xs \<lfloor>r * of_nat (length xs)\<rfloor> = Inr x \<and> x \<in> set xs"
proof -
  let ?n = "length xs"
  from assms(3) have n: "0 < (of_nat ?n :: rat)" by simp
  have "0 \<le> r * of_nat ?n" using assms(1) by simp
  then have lo: "0 \<le> \<lfloor>r * of_nat ?n\<rfloor>" by simp
  have "r * of_nat ?n < of_nat ?n" using assms(2) n by simp
  then have "r * of_nat ?n < of_int (int ?n)" by simp
  then have hi: "\<lfloor>r * of_nat ?n\<rfloor> < int ?n" by (simp only: floor_less_iff)
  from hi have "nat \<lfloor>r * of_nat ?n\<rfloor> < ?n" by (simp only: nat_less_iff [OF lo])
  then have "xs ! nat \<lfloor>r * of_nat ?n\<rfloor> \<in> set xs" by (rule nth_mem)
  with lo hi show ?thesis by (simp add: js_index_def)
qed

lemma js_index_mem: "js_index xs i = Inr x \<Longrightarrow> x \<in> set xs"
  by (auto simp: js_index_def split: if_splits)

lemma sixteenths_below_one:
  assumes "k \<le> 16"
  shows "(of_nat k / 16 < 1 - EPS) = (k < 16)"
proof (cases "k < 16")
  case True
  then have "k \<le> 15" by simp
  then have "(of_nat k :: rat) \<le> of_nat 15" unfolding of_nat_le_iff .
  then show ?thesis using True by (simp add: EPS_def)
next
  case False
  with assms have "k = 16" by simp
  then show ?thesis by (simp add: EPS_def)
qed

lemma pool_sixteenths:
  assumes "v \<in> set RHYTHM_POOL"
  obtains m :: nat where "0 < m" and "v = of_nat m / 16"
proof -
  from assms consider "v = 1" | "v = 1 / 2" | "v = 1 / 4" | "v = 1 / 8" | "v = 1 / 16"
    by (auto simp: RHYTHM_POOL_def)
  then show ?thesis
  proof cases
    case 1 then show ?thesis using that [of 16] by simp
  next
    case 2 then show ?thesis using that [of 8] by simp
  next
    case 3 then show ?thesis using that [of 4] by simp
  next
    case 4 then show ?thesis using that [of 2] by simp
  next
    case 5 then show ?thesis using that [of 1] by simp
  qed
qed

lemma candidate_fits:
  assumes "v \<in> set (filter (\<lambda>v. v \<le> (1 - of_nat k / 16) + EPS) RHYTHM_POOL)"
  obtains m :: nat where "0 < m" and "v = of_nat m / 16" and "k + m \<le> 16"
proof -
  from assms have v: "v \<in> set RHYTHM_POOL" and le: "v \<le> (1 - of_nat k / 16) + EPS"
    by simp_all
  from v obtain m :: nat where m: "0 < m" "v = of_nat m / 16"
    by (rule pool_sixteenths)
  from le m(2) have "(of_nat (k + m) :: rat) < of_nat 17"
    by (simp add: EPS_def field_simps)
  then have "k + m < 17" unfolding of_nat_less_iff .
  then have "k + m \<le> 16" by simp
  with m show ?thesis by (rule that)
qed

lemma sixteenth_is_candidate:
  assumes "k < 16"
  shows "1 / 16 \<in> set (filter (\<lambda>v. v \<le> (1 - of_nat k / 16) + EPS) RHYTHM_POOL)"
proof -
  from assms have "k \<le> 15" by simp
  then have "(of_nat k :: rat) \<le> of_nat 15" unfolding of_nat_le_iff .
  then show ?thesis by (simp add: RHYTHM_POOL_def EPS_def field_simps)
qed

lemma candidates_nonempty:
  assumes "k < 16"
  shows "filter (\<lambda>v. v \<le> (1 - of_nat k / 16) + EPS) RHYTHM_POOL \<noteq> []"
  using sixteenth_is_candidate [OF assms] by (metis empty_iff empty_set)

lemma loop_head_sixteenths:
  assumes "loop_head rand RHYTHM_POOL s0 st"
  shows "\<exists>k\<le>16. fst (snd st) = of_nat k / 16 \<and> sum_list (fst st) = of_nat k / 16"
  using assms
proof (induction rule: loop_head.induct)
  case enter
  show ?case by (rule exI [of _ 0]) simp
next
  case (iterate durations used s candidates r s' val)
  from iterate.IH obtain k :: nat where k: "k \<le> 16" "used = of_nat k / 16"
      "sum_list durations = of_nat k / 16"
    by auto
  from iterate.hyps(6) have "val \<in> set candidates" by (rule js_index_mem)
  then have "val \<in> set (filter (\<lambda>v. v \<le> (1 - of_nat k / 16) + EPS) RHYTHM_POOL)"
    using iterate.hyps(3) k(2) by simp
  then obtain m :: nat where m: "0 < m" "val = of_nat m / 16" "k + m \<le> 16"
    by (rule candidate_fits)
  show ?case
  proof (rule exI [of _ "k + m"])
    show "k + m \<le> 16 \<and> fst (snd (durations @ [val], used + val, s')) = of_nat (k + m) / 16 \<and>
      sum_list (fst (durations @ [val], used + val, s')) = of_nat (k + m) / 16"
      using k m by (simp add: add_divide_distrib)
  qed
qed

lemma loop_head_run:
  assumes "loop_head rand pool s0 st"
  shows "measure_loop rand pool (fst st) (fst (snd st)) (snd (snd st)) =
    measure_loop rand pool [] 0 s0"
  using assms
proof (induction rule: loop_head.induct)
  case enter
  show ?case by simp
next
  case (iterate durations used s candidates r s' val)
  have "measure_loop rand pool durations used s =
      measure_loop rand pool (durations @ [val]) (used + val) s'"
    using iterate.hyps(2-6) by (subst measure_loop.simps) (simp add: Let_def)
  with iterate.IH show ?case by simp
qed

lemma measure_loop_default:
  assumes "unit_source rand s" and "k \<le> 16"
    and "loop_head rand RHYTHM_POOL s0 (ds, of_nat k / 16, s)"
  shows "\<exists>ds' s'. measure_loop rand RHYTHM_POOL ds (of_nat k / 16) s = Some (Inr (ds', s')) \<and>
           loop_head rand RHYTHM_POOL s0 (ds', 1, s') \<and> unit_source rand s' \<and>
           length ds' + k \<le> length ds + 16 \<and> (k < 16 \<longrightarrow> length ds < length ds')"
  using assms
proof (induction "16 - k" arbitrary: k ds s rule: less_induct)
  case less
  show ?case
  proof (cases "k < 16")
    case False
    with less.prems(2) have k: "k = 16" by simp
    then have "measure_loop rand RHYTHM_POOL ds (of_nat k / 16) s = Some (Inr (ds, s))"
      by (subst measure_loop.simps) (simp add: EPS_def)
    with less.prems k show ?thesis by simp
  next
    case True
    let ?used = "(of_nat k :: rat) / 16"
    let ?cs = "filter (\<lambda>v. v \<le> (1 - ?used) + EPS) RHYTHM_POOL"
    obtain r s1 where rs: "rand s = (r, s1)" by (cases "rand s")
    have below: "?used < 1 - EPS"
      using sixteenths_below_one [OF less.prems(2)] True by simp
    have cs: "?cs \<noteq> []" using True by (rule candidates_nonempty)
    from unit_source_step [OF less.prems(1)] rs
    have r: "0 \<le> r" "r < 1" and s1: "unit_source rand s1" by simp_all
    from js_index_unit [OF r cs] obtain val
      where val: "js_index ?cs \<lfloor>r * of_nat (length ?cs)\<rfloor> = Inr val" "val \<in> set ?cs"
      by blast
    from val(2) obtain m :: nat where m: "0 < m" "val = of_nat m / 16" "k + m \<le> 16"
      by (rule candidate_fits)
    have next_used: "?used + val = of_nat (k + m) / 16"
      using m(2) by (simp add: add_divide_distrib)
    have "measure_loop rand RHYTHM_POOL ds ?used s =
        measure_loop rand RHYTHM_POOL (ds @ [val]) (?used + val) s1"
      using below cs rs val(1)
      by (subst measure_loop.simps) (simp add: Let_def)
    then have unfold: "measure_loop rand RHYTHM_POOL ds ?used s =
        measure_loop rand RHYTHM_POOL (ds @ [val]) (of_nat (k + m) / 16) s1"
      by (simp only: next_used)
    have head: "loop_head rand RHYTHM_POOL s0 (ds @ [val], of_nat (k + m) / 16, s1)"
      using loop_head.iterate [OF less.prems(3) below refl _ rs val(1)] cs next_used
      by simp
    have "16 - (k + m) < 16 - k" using m(1) True by simp
    from less.hyps [OF this s1 m(3) head] obtain ds' s'
      where res: "measure_loop rand RHYTHM_POOL (ds @ [val]) (of_nat (k + m) / 16) s1 =
          Some (Inr (ds', s'))"
        "loop_head rand RHYTHM_POOL s0 (ds', 1, s')" "unit_source rand s'"
        "length ds' + (k + m) \<le> length (ds @ [val]) + 16"
      by blast
    have grow: "length ds < length ds'"
    proof (cases "k + m < 16")
      case True
      with less.hyps [OF \<open>16 - (k + m) < 16 - k\<close> s1 m(3) head] res(1) show ?thesis
        by auto
    next
      case False
      with m(3) have "k + m = 16" by simp
      then have "measure_loop rand RHYTHM_POOL (ds @ [val]) (of_nat (k + m) / 16) s1 =
          Some (Inr (ds @ [val], s1))"
        by (subst measure_loop.simps) (simp add: EPS_def)
      with res(1) show ?thesis by simp
    qed
    show ?thesis
      using unfold res grow m(1) by simp
  qed
qed

lemma snap_full: "sum_list ds = 1 \<Longrightarrow> snap ds = ds"
  by (simp add: snap_def Let_def foldl_plus_sum_list EPS_def)

lemma generateMeasureDurations_default:
  assumes "unit_source rand s"
  shows "\<exists>ds s'. generateMeasureDurations rand RHYTHM_POOL s = Some (Inr (ds, s')) \<and>
           measure_loop rand RHYTHM_POOL [] 0 s = Some (Inr (ds, s')) \<and>
           loop_head rand RHYTHM_POOL s (ds, 1, s') \<and> unit_source rand s' \<and>
           sum_list ds = 1 \<and> 1 \<le> length ds \<and> length ds \<le> 16"
proof -
  have "loop_head rand RHYTHM_POOL s ([], of_nat 0 / 16, s)"
    using loop_head.enter [of rand RHYTHM_POOL s] by simp
  from measure_loop_default [OF assms _ this] obtain ds s'
    where res: "measure_loop rand RHYTHM_POOL [] 0 s = Some (Inr (ds, s'))"
      "loop_head rand RHYTHM_POOL s (ds, 1, s')" "unit_source rand s'"
      "length ds \<le> 16" "0 < length ds"
    by auto
  from loop_head_sixteenths [OF res(2)] have total: "sum_list ds = 1" by auto
  then have "snap ds = ds" by (rule snap_full)
  with res total show ?thesis
    by (simp add: generateMeasureDurations_def Suc_leI)
qed

section \<open>The melody loops\<close>

lemma contiguous_append:
  "contiguous t xs t' \<Longrightarrow> contiguous t' ys t'' \<Longrightarrow> contiguous t (xs @ ys) t''"
  by (induction xs arbitrary: t) auto



lemma nextMidi_total:
  assumes "unit_source rand s"
  shows "\<exists>m s'. nextMidi rand s current low high = Inr (m, s') \<and> unit_source rand s' \<and>
           (low \<le> high \<longrightarrow> low \<le> m \<and> m \<le> high)"
proof -
  obtain r1 s1 where d1: "rand s = (r1, s1)" by (cases "rand s")
  obtain r2 s2 where d2: "rand s1 = (r2, s2)" by (cases "rand s1")
  from unit_source_step [OF assms] d1 have s1: "unit_source rand s1" by simp
  from unit_source_step [OF s1] d2 have r2: "0 \<le> r2" "r2 < 1" and s2: "unit_source rand s2"
    by simp_all
  show ?thesis
    unfolding nextMidi_unit [OF d1 d2 r2] using s2
    by (auto simp: Let_def clamp_def)
qed

lemma for_frac_unit:
  assumes "unit_source rand (rng st)"
  shows "\<exists>st' new. for_frac rand low high ds st = Inr st' \<and> unit_source rand (rng st') \<and>
           events st' = events st @ new \<and>
           map durationBeats new = map (\<lambda>f. f * 4) ds \<and>
           contiguous (tBeats st) new (tBeats st') \<and>
           (low \<le> high \<longrightarrow> (\<forall>e\<in>set new. low \<le> midi e \<and> midi e \<le> high))"
  using assms
proof (induction ds arbitrary: st)
  case Nil
  show ?case by (rule exI [of _ st], rule exI [of _ "[]"]) (simp add: Nil)
next
  case (Cons d ds)
  from nextMidi_total [OF Cons.prems, of "currentMidi st" low high] obtain m s'
    where m: "nextMidi rand (rng st) (currentMidi st) low high = Inr (m, s')"
      "unit_source rand s'" "low \<le> high \<longrightarrow> low \<le> m \<and> m \<le> high"
    by blast
  let ?e = "\<lparr>midi = m, name = midiToName m, startBeats = tBeats st, durationBeats = d * 4\<rparr>"
  let ?st = "\<lparr>events = events st @ [?e], tBeats = tBeats st + d * 4, currentMidi = m, rng = s'\<rparr>"
  have "unit_source rand (rng ?st)" using m(2) by simp
  from Cons.IH [OF this] obtain st' new
    where IH: "for_frac rand low high ds ?st = Inr st'" "unit_source rand (rng st')"
      "events st' = events ?st @ new" "map durationBeats new = map (\<lambda>f. f * 4) ds"
      "contiguous (tBeats ?st) new (tBeats st')"
      "low \<le> high \<longrightarrow> (\<forall>e\<in>set new. low \<le> midi e \<and> midi e \<le> high)"
    by blast
  show ?case
  proof (rule exI [of _ st'], rule exI [of _ "?e # new"], intro conjI)
    show "for_frac rand low high (d # ds) st = Inr st'"
      using m(1) IH(1) by (simp add: Let_def)
    show "unit_source rand (rng st')" by (rule IH(2))
    show "events st' = events st @ ?e # new" using IH(3) by simp
    show "map durationBeats (?e # new) = map (\<lambda>f. f * 4) (d # ds)" using IH(4) by simp
    show "contiguous (tBeats st) (?e # new) (tBeats st')" using IH(5) by simp
    show "low \<le> high \<longrightarrow> (\<forall>e\<in>set (?e # new). low \<le> midi e \<and> midi e \<le> high)"
      using IH(6) m(3) by simp
  qed
qed

lemma for_bar_unit:
  assumes "unit_source rand (rng st)"
  shows "\<exists>st' new groups. for_bar rand low high n st = Some (Inr st') \<and>
           unit_source rand (rng st') \<and>
           events st' = events st @ new \<and>
           contiguous (tBeats st) new (tBeats st') \<and>
           (low \<le> high \<longrightarrow> (\<forall>e\<in>set new. low \<le> midi e \<and> midi e \<le> high)) \<and>
           map durationBeats new = concat groups \<and> length groups = n \<and>
           (\<forall>g\<in>set groups. g \<noteq> [] \<and> sum_list g = 4)"
  using assms
proof (induction n arbitrary: st)
  case 0
  show ?case
    by (rule exI [of _ st], rule exI [of _ "[]"], rule exI [of _ "[]"]) (simp add: 0)
next
  case (Suc n)
  from generateMeasureDurations_default [OF Suc.prems] obtain ds s'
    where ds: "generateMeasureDurations rand RHYTHM_POOL (rng st) = Some (Inr (ds, s'))"
      "unit_source rand s'" "sum_list ds = 1" "1 \<le> length ds"
    by blast
  have "unit_source rand (rng (st\<lparr>rng := s'\<rparr>))" using ds(2) by simp
  from for_frac_unit [OF this, of low high ds] obtain st1 new1
    where inner: "for_frac rand low high ds (st\<lparr>rng := s'\<rparr>) = Inr st1"
      "unit_source rand (rng st1)" "events st1 = events st @ new1"
      "map durationBeats new1 = map (\<lambda>f. f * 4) ds"
      "contiguous (tBeats st) new1 (tBeats st1)"
      "low \<le> high \<longrightarrow> (\<forall>e\<in>set new1. low \<le> midi e \<and> midi e \<le> high)"
    by auto
  from Suc.IH [OF inner(2)] obtain st' new2 groups
    where rest: "for_bar rand low high n st1 = Some (Inr st')"
      "unit_source rand (rng st')" "events st' = events st1 @ new2"
      "contiguous (tBeats st1) new2 (tBeats st')"
      "low \<le> high \<longrightarrow> (\<forall>e\<in>set new2. low \<le> midi e \<and> midi e \<le> high)"
      "map durationBeats new2 = concat groups" "length groups = n"
      "\<forall>g\<in>set groups. g \<noteq> [] \<and> sum_list g = 4"
    by blast
  let ?g = "map (\<lambda>f. f * 4) ds"
  have g: "?g \<noteq> [] \<and> sum_list ?g = 4"
    using ds(3,4) by (auto simp: sum_list_mult_const)
  show ?case
  proof (rule exI [of _ st'], rule exI [of _ "new1 @ new2"], rule exI [of _ "?g # groups"],
      intro conjI)
    show "for_bar rand low high (Suc n) st = Some (Inr st')"
      using ds(1) inner(1) rest(1) by simp
    show "unit_source rand (rng st')" by (rule rest(2))
    show "events st' = events st @ new1 @ new2" using inner(3) rest(3) by simp
    show "contiguous (tBeats st) (new1 @ new2) (tBeats st')"
      using inner(5) rest(4) by (rule contiguous_append)
    show "low \<le> high \<longrightarrow> (\<forall>e\<in>set (new1 @ new2). low \<le> midi e \<and> midi e \<le> high)"
      using inner(6) rest(5) by auto
    show "map durationBeats (new1 @ new2) = concat (?g # groups)"
      using inner(4) rest(6) by simp
    show "length (?g # groups) = Suc n" using rest(7) by simp
    show "\<forall>g\<in>set (?g # groups). g \<noteq> [] \<and> sum_list g = 4"
      using g rest(8) by simp
  qed
qed

lemma generateMelody_unit:
  assumes "unit_source rand_call (makePRNG f (seed p))"
  shows "\<exists>m T groups. generateMelody f p = Some (Inr m) \<and>
           contiguous 0 m T \<and>
           (lowMidi p \<le> highMidi p \<longrightarrow>
              (\<forall>e\<in>set m. lowMidi p \<le> midi e \<and> midi e \<le> highMidi p)) \<and>
           map durationBeats m = concat groups \<and> length groups = nat (measures p) \<and>
           (\<forall>g\<in>set groups. g \<noteq> [] \<and> sum_list g = 4)"
proof -
  let ?st = "\<lparr>events = [], tBeats = 0,
    currentMidi = clamp 60 (lowMidi p) (highMidi p), rng = makePRNG f (seed p)\<rparr>"
  have "unit_source rand_call (rng ?st)" using assms by simp
  from for_bar_unit [OF this, of "lowMidi p" "highMidi p" "nat (measures p)"]
  obtain st' new groups
    where run: "for_bar rand_call (lowMidi p) (highMidi p) (nat (measures p)) ?st =
        Some (Inr st')"
      "events st' = events ?st @ new" "contiguous (tBeats ?st) new (tBeats st')"
      "lowMidi p \<le> highMidi p \<longrightarrow>
        (\<forall>e\<in>set new. lowMidi p \<le> midi e \<and> midi e \<le> highMidi p)"
      "map durationBeats new = concat groups" "length groups = nat (measures p)"
      "\<forall>g\<in>set groups. g \<noteq> [] \<and> sum_list g = 4"
    by blast
  from run(1,2) have "generateMelody f p = Some (Inr new)"
    by (simp add: generateMelody_def Let_def)
  with run(3-7) show ?thesis by auto
qed

lemma length_concat_nonempty:
  "\<forall>g\<in>set groups. g \<noteq> [] \<Longrightarrow> length groups \<le> length (concat groups)"
proof (induction groups)
  case Nil
  then show ?case by simp
next
  case (Cons g groups)
  then have "1 \<le> length g" by (cases g) simp_all
  with Cons show ?case by simp
qed

lemma seeded_PRNG:
  "str \<noteq> [] \<Longrightarrow> makePRNG f (Some str) = Mulberry32 (fst (xmur3_call (xmur3 str)))"
  by (simp add: makePRNG_def)

section \<open>The run on the seed hello\<close>

lemma hello_seed:
  "makePRNG Math_random (Some (utf16 ''hello'')) = Mulberry32 3588693721"
  by (simp add: makePRNG_def utf16_def xmur3_def xmur3_mix_def xmur3_call_def imul_def)

lemma hello_draws:
  "mulberry32_call 3588693721 = (767759629 / 4294967296, 5420259534)"
  "mulberry32_call 5420259534 = (3243475783 / 4294967296, 7251825347)"
  "mulberry32_call 7251825347 = (33574255 / 67108864, 9083391160)"
  by (simp_all add: mulberry32_call_def fl_nat_def imul_def)

lemma hello_measure:
  "generateMeasureDurations rand_call RHYTHM_POOL (Mulberry32 3588693721) =
     Some (Inr ([1], Mulberry32 5420259534))"
proof -
  have "measure_loop rand_call RHYTHM_POOL [1] 1 (Mulberry32 5420259534) =
      Some (Inr ([1], Mulberry32 5420259534))"
    by (subst measure_loop.simps) (simp add: EPS_def)
  then have "measure_loop rand_call RHYTHM_POOL [] 0 (Mulberry32 3588693721) =
      Some (Inr ([1], Mulberry32 5420259534))"
    by (subst measure_loop.simps)
      (simp add: EPS_def RHYTHM_POOL_def hello_draws js_index_def floor_eq_iff)
  then show ?thesis
    by (simp add: generateMeasureDurations_def snap_def EPS_def)
qed

lemma hello_pitch:
  "nextMidi rand_call (Mulberry32 5420259534) 60 55 76 = Inr (61, Mulberry32 9083391160)"
proof -
  have "rand_call (Mulberry32 5420259534) = (3243475783 / 4294967296, Mulberry32 7251825347)"
    and "rand_call (Mulberry32 7251825347) = (33574255 / 67108864, Mulberry32 9083391160)"
    by (simp_all add: hello_draws)
  from nextMidi_unit [OF this, of 60 55 76] show ?thesis
    by (simp add: delta_of_draws_def)
qed

lemma hello_melody:
  "generateMelody Math_random
     \<lparr>measures = 1, tempo = 110, seed = Some (utf16 ''hello''), lowMidi = 55, highMidi = 76\<rparr> =
   Some (Inr [\<lparr>midi = 61, name = ''C#4'', startBeats = 0, durationBeats = 4\<rparr>])"
proof -
  have n: "midiToName 61 = ''C#4''"
    by (simp add: midiToName_def SHARP_NOTE_ORDER_def js_index_def String_int_def)
  have "for_bar rand_call 55 76 (Suc 0)
      \<lparr>events = [], tBeats = 0, currentMidi = 60, rng = Mulberry32 3588693721\<rparr> =
    Some (Inr \<lparr>events = [\<lparr>midi = 61, name = ''C#4'', startBeats = 0, durationBeats = 4\<rparr>],
      tBeats = 4, currentMidi = 61, rng = Mulberry32 9083391160\<rparr>)"
    by (simp add: hello_measure hello_pitch n)
  then show ?thesis
    by (simp add: generateMelody_def hello_seed clamp_def)
qed

section \<open>Properties of the specification\<close>

text \<open>
  C1, as stated, fails for the empty seed string: the two runs below have the same seed
  \<open>""\<close> and the same parameters and differ in the values \<open>Math.random\<close> returns.
\<close>

theorem empty_seed_two_runs_differ:
  "generateMelody (constant_draws 0)
     \<lparr>measures = 1, tempo = 110, seed = Some [], lowMidi = 55, highMidi = 76\<rparr> \<noteq>
   generateMelody (constant_draws (1 / 4))
     \<lparr>measures = 1, tempo = 110, seed = Some [], lowMidi = 55, highMidi = 76\<rparr>"
  by code_simp

text \<open>
  C1, amended. For every seed string that is not empty and fixed parameters, two runs of
  \<open>generateMelody\<close> return the same melody, note for note, whatever \<open>Math.random\<close> returns
  in either run.
\<close>

theorem seeded_runs_identical:
  assumes "seed params = Some str" and "str \<noteq> []"
  shows "\<exists>melody. generateMelody Math_random params = Some (Inr melody) \<and>
           generateMelody Math_random' params = Some (Inr melody)"
proof -
  from assms have g: "makePRNG Math_random (seed params) = makePRNG Math_random' (seed params)"
    by (simp add: seeded_PRNG)
  from assms have "unit_source rand_call (makePRNG Math_random (seed params))"
    by (simp add: seeded_PRNG unit_source_Mulberry32)
  from generateMelody_unit [OF this] obtain melody
    where m: "generateMelody Math_random params = Some (Inr melody)"
    by blast
  have "generateMelody Math_random' params = generateMelody Math_random params"
    by (simp add: generateMelody_def g)
  with m show ?thesis by simp
qed

theorem seeded_runs_identical_witness:
  "seed \<lparr>measures = 1, tempo = 110, seed = Some (utf16 ''hello''), lowMidi = 55,
      highMidi = 76\<rparr> = Some (utf16 ''hello'') \<and>
   utf16 ''hello'' \<noteq> [] \<and>
   (\<exists>melody.
      generateMelody (constant_draws 0)
        \<lparr>measures = 1, tempo = 110, seed = Some (utf16 ''hello''), lowMidi = 55,
          highMidi = 76\<rparr> = Some (Inr melody) \<and>
      generateMelody (constant_draws (1 / 4))
        \<lparr>measures = 1, tempo = 110, seed = Some (utf16 ''hello''), lowMidi = 55,
          highMidi = 76\<rparr> = Some (Inr melody)) \<and>
   generateMelody (constant_draws 0)
     \<lparr>measures = 1, tempo = 110, seed = Some (utf16 ''hello''), lowMidi = 55, highMidi = 76\<rparr> =
   Some (Inr [\<lparr>midi = 61, name = ''C#4'', startBeats = 0, durationBeats = 4\<rparr>])"
proof -
  have ne: "utf16 ''hello'' \<noteq> []" by (simp add: utf16_def)
  have sd: "seed \<lparr>measures = 1, tempo = 110, seed = Some (utf16 ''hello''), lowMidi = 55,
      highMidi = 76\<rparr> = Some (utf16 ''hello'')"
    by simp
  from sd ne seeded_runs_identical [OF sd ne, of "constant_draws 0" "constant_draws (1 / 4)"]
    hello_melody [of "constant_draws 0"]
  show ?thesis by (intro conjI)
qed

text \<open>
  C2. For every source whose draws lie in [0,1), the durations that
  \<open>generateMeasureDurations\<close> returns for a measure sum to exactly 1, and to exactly 4
  beats after the conversion; the durations of a melody are those of its measures, one
  group of sum 4 per measure.
\<close>

theorem measure_closure:
  "(unit_source rand s \<longrightarrow>
      (\<exists>ds s'. generateMeasureDurations rand RHYTHM_POOL s = Some (Inr (ds, s')) \<and>
         sum_list ds = 1 \<and> sum_list (map (\<lambda>f. f * 4) ds) = 4)) \<and>
   ((\<forall>n. 0 \<le> Math_random n \<and> Math_random n < 1) \<longrightarrow>
      (\<exists>melody groups. generateMelody Math_random params = Some (Inr melody) \<and>
         map durationBeats melody = concat groups \<and>
         length groups = nat (measures params) \<and>
         (\<forall>g\<in>set groups. sum_list g = 4)))"
proof (intro conjI impI)
  assume "unit_source rand s"
  from generateMeasureDurations_default [OF this] obtain ds s'
    where "generateMeasureDurations rand RHYTHM_POOL s = Some (Inr (ds, s'))" "sum_list ds = 1"
    by blast
  then show "\<exists>ds s'. generateMeasureDurations rand RHYTHM_POOL s = Some (Inr (ds, s')) \<and>
         sum_list ds = 1 \<and> sum_list (map (\<lambda>f. f * 4) ds) = 4"
    by (simp add: sum_list_mult_const)
next
  assume "\<forall>n. 0 \<le> Math_random n \<and> Math_random n < 1"
  then have "unit_source rand_call (makePRNG Math_random (seed params))"
    by (rule unit_source_makePRNG)
  from generateMelody_unit [OF this]
  show "\<exists>melody groups. generateMelody Math_random params = Some (Inr melody) \<and>
         map durationBeats melody = concat groups \<and>
         length groups = nat (measures params) \<and>
         (\<forall>g\<in>set groups. sum_list g = 4)"
    by blast
qed

theorem measure_closure_witness:
  "unit_source rand_call (MathRandom (constant_draws (1 / 4)) 0) \<and>
   (\<forall>n. 0 \<le> constant_draws (1 / 4) n \<and> constant_draws (1 / 4) n < 1) \<and>
   (\<exists>ds s'. generateMeasureDurations rand_call RHYTHM_POOL
        (MathRandom (constant_draws (1 / 4)) 0) = Some (Inr (ds, s')) \<and>
      sum_list ds = 1 \<and> sum_list (map (\<lambda>f. f * 4) ds) = 4) \<and>
   (\<exists>melody groups. generateMelody (constant_draws (1 / 4))
        \<lparr>measures = 4, tempo = 100, seed = None, lowMidi = 55, highMidi = 76\<rparr> =
        Some (Inr melody) \<and>
      map durationBeats melody = concat groups \<and> length groups = 4 \<and>
      (\<forall>g\<in>set groups. sum_list g = 4))"
proof -
  have d: "\<forall>n. 0 \<le> constant_draws (1 / 4) n \<and> constant_draws (1 / 4) n < 1"
    by (simp add: constant_draws_def)
  then have u: "unit_source rand_call (MathRandom (constant_draws (1 / 4)) 0)"
    by (rule unit_source_MathRandom)
  from d u measure_closure [of rand_call "MathRandom (constant_draws (1 / 4)) 0"
      "constant_draws (1 / 4)"
      "\<lparr>measures = 4, tempo = 100, seed = None, lowMidi = 55, highMidi = 76\<rparr>"]
  show ?thesis by simp
qed

text \<open>
  C3. When \<open>low \<le> high\<close> and the draws lie in [0,1), every note of the melody has its
  pitch in \<open>[low, high]\<close>; so has the initial pitch, 60 clamped, and so has every pitch
  that \<open>nextMidi\<close> returns, whatever the current pitch.
\<close>

theorem range_containment:
  assumes "lowMidi params \<le> highMidi params"
    and "\<forall>n. 0 \<le> Math_random n \<and> Math_random n < 1"
  shows "(\<exists>melody. generateMelody Math_random params = Some (Inr melody) \<and>
            (\<forall>e\<in>set melody. lowMidi params \<le> midi e \<and> midi e \<le> highMidi params)) \<and>
         lowMidi params \<le> clamp 60 (lowMidi params) (highMidi params) \<and>
         clamp 60 (lowMidi params) (highMidi params) \<le> highMidi params \<and>
         (nextMidi rand s current (lowMidi params) (highMidi params) = Inr (m, s') \<longrightarrow>
            lowMidi params \<le> m \<and> m \<le> highMidi params)"
proof (intro conjI)
  from assms(2) have "unit_source rand_call (makePRNG Math_random (seed params))"
    by (rule unit_source_makePRNG)
  from generateMelody_unit [OF this] assms(1)
  show "\<exists>melody. generateMelody Math_random params = Some (Inr melody) \<and>
            (\<forall>e\<in>set melody. lowMidi params \<le> midi e \<and> midi e \<le> highMidi params)"
    by blast
  show "lowMidi params \<le> clamp 60 (lowMidi params) (highMidi params)"
    and "clamp 60 (lowMidi params) (highMidi params) \<le> highMidi params"
    using assms(1) by (simp_all add: clamp_def)
  show "nextMidi rand s current (lowMidi params) (highMidi params) = Inr (m, s') \<longrightarrow>
            lowMidi params \<le> m \<and> m \<le> highMidi params"
    using assms(1)
    by (auto simp: nextMidi_def Let_def clamp_def split: prod.splits sum.splits if_splits)
qed

theorem range_containment_witness:
  "(60::int) \<le> 60 \<and> (\<forall>n. 0 \<le> constant_draws (7 / 8) n \<and> constant_draws (7 / 8) n < 1) \<and>
   (\<exists>melody. generateMelody (constant_draws (7 / 8))
        \<lparr>measures = 2, tempo = 100, seed = None, lowMidi = 60, highMidi = 60\<rparr> =
        Some (Inr melody) \<and> (\<forall>e\<in>set melody. 60 \<le> midi e \<and> midi e \<le> 60)) \<and>
   clamp 60 60 60 = 60"
proof -
  have d: "\<forall>n. 0 \<le> constant_draws (7 / 8) n \<and> constant_draws (7 / 8) n < 1"
    by (simp add: constant_draws_def)
  have "lowMidi \<lparr>measures = 2, tempo = 100, seed = None, lowMidi = 60, highMidi = 60\<rparr> \<le>
      highMidi \<lparr>measures = 2, tempo = 100, seed = None, lowMidi = 60, highMidi = 60\<rparr>"
    by simp
  from range_containment [OF this d, THEN conjunct1] d show ?thesis
    by (simp add: clamp_def)
qed



text \<open>
  C5. \<open>nextMidi\<close> is the pitch walk of the specification. With \<open>r1\<close> and \<open>r2\<close> the two
  draws it takes, \<open>r2\<close> in [0,1) and \<open>low \<le> high\<close>: a first draw below 0.8 selects the steps
  -2, -1, +1, +2 and any other the leaps -7, -5, +5, +7; the second draw selects the entry
  by its quarter of [0,1); the result is \<open>current + delta\<close> when that lies in
  \<open>[low, high]\<close> and the nearest bound otherwise. The source is left after the second draw.
\<close>

theorem nextMidi_step_or_leap_clamped:
  assumes "rand s = (r1, s1)" and "rand s1 = (r2, s2)" and "0 \<le> r2" and "r2 < 1"
    and "low \<le> high"
  shows "nextMidi rand s current low high =
    Inr (nearest_in_range low high (current + delta_of_draws r1 r2), s2)"
  using assms(5) unfolding nextMidi_unit [OF assms(1-4)]
  by (auto simp: Let_def clamp_def nearest_in_range_def)

theorem nextMidi_step_or_leap_clamped_witness:
  "rand_call (MathRandom (constant_draws (7 / 8)) 0) =
     (7 / 8, MathRandom (constant_draws (7 / 8)) 1) \<and>
   rand_call (MathRandom (constant_draws (7 / 8)) 1) =
     (7 / 8, MathRandom (constant_draws (7 / 8)) 2) \<and>
   (0::rat) \<le> 7 / 8 \<and> (7 / 8 :: rat) < 1 \<and> (55::int) \<le> 76 \<and>
   delta_of_draws (7 / 8) (7 / 8) = 7 \<and>
   nextMidi rand_call (MathRandom (constant_draws (7 / 8)) 0) 72 55 76 =
     Inr (76, MathRandom (constant_draws (7 / 8)) 2)"
  using nextMidi_step_or_leap_clamped [of rand_call "MathRandom (constant_draws (7 / 8)) 0"
      "7 / 8" "MathRandom (constant_draws (7 / 8)) 1" "7 / 8"
      "MathRandom (constant_draws (7 / 8)) 2" 55 76 72]
  by (simp add: constant_draws_def delta_of_draws_def nearest_in_range_def)

text \<open>
  C6. On the default pool the rhythm loop terminates for every source whose draws lie in
  [0,1): \<open>generateMeasureDurations\<close> returns a list, after at most 16 iterations (each
  one appends one duration, of at least 1/16).
\<close>

theorem generateMeasureDurations_terminates:
  assumes "unit_source rand s"
  shows "\<exists>ds s'. generateMeasureDurations rand RHYTHM_POOL s = Some (Inr (ds, s')) \<and>
           length ds \<le> 16 \<and> list_all (\<lambda>d. 1 / 16 \<le> d) RHYTHM_POOL"
proof -
  have "list_all (\<lambda>d. 1 / 16 \<le> d) RHYTHM_POOL" by (simp add: RHYTHM_POOL_def)
  with generateMeasureDurations_default [OF assms] show ?thesis by blast
qed

theorem generateMeasureDurations_terminates_witness:
  "unit_source rand_call (makePRNG (constant_draws 0) (Some (utf16 ''hello''))) \<and>
   (\<exists>ds s'. generateMeasureDurations rand_call RHYTHM_POOL
        (makePRNG (constant_draws 0) (Some (utf16 ''hello''))) = Some (Inr (ds, s')) \<and>
      length ds \<le> 16 \<and> list_all (\<lambda>d. 1 / 16 \<le> d) RHYTHM_POOL)"
proof -
  have u: "unit_source rand_call (makePRNG (constant_draws 0) (Some (utf16 ''hello'')))"
    by (rule unit_source_makePRNG) (simp add: constant_draws_def)
  with generateMeasureDurations_terminates [OF u] show ?thesis by blast
qed



text \<open>
  C8. When the draws lie in [0,1), \<open>generateMeasureDurations\<close> returns a list that is not
  empty, and the melody has at least \<open>measures\<close> notes.
\<close>

theorem event_count_lower_bound:
  "(unit_source rand s \<longrightarrow>
      (\<exists>ds s'. generateMeasureDurations rand RHYTHM_POOL s = Some (Inr (ds, s')) \<and> ds \<noteq> [])) \<and>
   ((\<forall>n. 0 \<le> Math_random n \<and> Math_random n < 1) \<longrightarrow>
      (\<exists>melody. generateMelody Math_random params = Some (Inr melody) \<and>
         measures params \<le> int (length melody)))"
proof (intro conjI impI)
  assume "unit_source rand s"
  from generateMeasureDurations_default [OF this] obtain ds s'
    where "generateMeasureDurations rand RHYTHM_POOL s = Some (Inr (ds, s'))" "1 \<le> length ds"
    by blast
  moreover from this(2) have "ds \<noteq> []" by auto
  ultimately show "\<exists>ds s'. generateMeasureDurations rand RHYTHM_POOL s = Some (Inr (ds, s')) \<and>
      ds \<noteq> []"
    by blast
next
  assume "\<forall>n. 0 \<le> Math_random n \<and> Math_random n < 1"
  then have "unit_source rand_call (makePRNG Math_random (seed params))"
    by (rule unit_source_makePRNG)
  from generateMelody_unit [OF this] obtain melody groups
    where m: "generateMelody Math_random params = Some (Inr melody)"
      "map durationBeats melody = concat groups" "length groups = nat (measures params)"
      "\<forall>g\<in>set groups. g \<noteq> [] \<and> sum_list g = 4"
    by blast
  from m(4) have "length groups \<le> length (concat groups)"
    by (intro length_concat_nonempty) blast
  also have "\<dots> = length melody" using m(2) by (metis length_map)
  finally have "measures params \<le> int (length melody)" using m(3) by simp
  with m(1) show "\<exists>melody. generateMelody Math_random params = Some (Inr melody) \<and>
         measures params \<le> int (length melody)"
    by blast
qed

theorem event_count_lower_bound_witness:
  "unit_source rand_call (MathRandom (constant_draws 0) 0) \<and>
   (\<forall>n. 0 \<le> constant_draws 0 n \<and> constant_draws 0 n < 1) \<and>
   (\<exists>ds s'. generateMeasureDurations rand_call RHYTHM_POOL (MathRandom (constant_draws 0) 0) =
        Some (Inr (ds, s')) \<and> ds \<noteq> []) \<and>
   (\<exists>melody. generateMelody (constant_draws 0)
        \<lparr>measures = 3, tempo = 100, seed = None, lowMidi = 55, highMidi = 76\<rparr> =
        Some (Inr melody) \<and> 3 \<le> int (length melody))"
proof -
  have d: "\<forall>n. 0 \<le> constant_draws 0 n \<and> constant_draws 0 n < 1"
    by (simp add: constant_draws_def)
  then have u: "unit_source rand_call (MathRandom (constant_draws 0) 0)"
    by (rule unit_source_MathRandom)
  from d u event_count_lower_bound [of rand_call "MathRandom (constant_draws 0) 0"
      "constant_draws 0"
      "\<lparr>measures = 3, tempo = 100, seed = None, lowMidi = 55, highMidi = 76\<rparr>"]
  show ?thesis by simp
qed

text \<open>
  C9. On the default pool, with draws in [0,1), the two corrective branches of
  \<open>generateMeasureDurations\<close> are never taken. At every state the loop head is reached in,
  the candidates are not empty while the loop condition holds, so the safety net does not
  run; once the condition fails the durations sum to exactly 1, so the test of the snapping
  step is false and the list is returned as the loop left it. The loop continues from such
  a state to the result of the whole run, and the run of the function ends in one.
\<close>

theorem corrective_branches_unreachable:
  assumes "unit_source rand s0"
    and "loop_head rand RHYTHM_POOL s0 (durations, used, s)"
  shows "(used < 1 - EPS \<longrightarrow> filter (\<lambda>v. v \<le> (1 - used) + EPS) RHYTHM_POOL \<noteq> []) \<and>
         (\<not> used < 1 - EPS \<longrightarrow>
            foldl (+) 0 durations = 1 \<and> \<not> \<bar>1 - foldl (+) 0 durations\<bar> > EPS \<and>
            snap durations = durations) \<and>
         measure_loop rand RHYTHM_POOL durations used s =
           measure_loop rand RHYTHM_POOL [] 0 s0 \<and>
         (\<exists>ds s'. loop_head rand RHYTHM_POOL s0 (ds, 1, s') \<and>
            measure_loop rand RHYTHM_POOL [] 0 s0 = Some (Inr (ds, s')) \<and>
            generateMeasureDurations rand RHYTHM_POOL s0 = Some (Inr (ds, s')))"
proof (intro conjI impI)
  from loop_head_sixteenths [OF assms(2)] obtain k :: nat
    where k: "k \<le> 16" "used = of_nat k / 16" "sum_list durations = of_nat k / 16"
    by auto
  {
    assume "used < 1 - EPS"
    with k have "k < 16" using sixteenths_below_one [of k] by simp
    then show "filter (\<lambda>v. v \<le> (1 - used) + EPS) RHYTHM_POOL \<noteq> []"
      unfolding k(2) by (rule candidates_nonempty)
  }
  {
    assume "\<not> used < 1 - EPS"
    with k have "k = 16" using sixteenths_below_one [of k] by simp
    with k(3) have total: "sum_list durations = 1" by simp
    then show "foldl (+) 0 durations = 1" by (simp add: foldl_plus_sum_list)
    then show "\<not> \<bar>1 - foldl (+) 0 durations\<bar> > EPS" by (simp add: EPS_def)
    from total show "snap durations = durations" by (rule snap_full)
  }
  from loop_head_run [OF assms(2)]
  show "measure_loop rand RHYTHM_POOL durations used s = measure_loop rand RHYTHM_POOL [] 0 s0"
    by simp
  from generateMeasureDurations_default [OF assms(1)]
  show "\<exists>ds s'. loop_head rand RHYTHM_POOL s0 (ds, 1, s') \<and>
            measure_loop rand RHYTHM_POOL [] 0 s0 = Some (Inr (ds, s')) \<and>
            generateMeasureDurations rand RHYTHM_POOL s0 = Some (Inr (ds, s'))"
    by blast
qed

theorem corrective_branches_unreachable_witness:
  "unit_source rand_call (MathRandom (constant_draws 0) 0) \<and>
   loop_head rand_call RHYTHM_POOL (MathRandom (constant_draws 0) 0)
     ([], 0, MathRandom (constant_draws 0) 0) \<and>
   loop_head rand_call RHYTHM_POOL (MathRandom (constant_draws 0) 0)
     ([1], 1, MathRandom (constant_draws 0) 1) \<and>
   (0::rat) < 1 - EPS \<and> \<not> (1::rat) < 1 - EPS \<and>
   filter (\<lambda>v. v \<le> (1 - 0) + EPS) RHYTHM_POOL \<noteq> [] \<and>
   foldl (+) 0 [1::rat] = 1 \<and> snap [1] = [1] \<and>
   (\<exists>ds s'. generateMeasureDurations rand_call RHYTHM_POOL (MathRandom (constant_draws 0) 0) =
      Some (Inr (ds, s')))"
proof -
  let ?s0 = "MathRandom (constant_draws 0) 0"
  have u: "unit_source rand_call ?s0"
    by (rule unit_source_MathRandom) (simp add: constant_draws_def)
  have h0: "loop_head rand_call RHYTHM_POOL ?s0 ([], 0, ?s0)"
    by (rule loop_head.enter)
  have "loop_head rand_call RHYTHM_POOL ?s0
      ([] @ [1], 0 + 1, MathRandom (constant_draws 0) (Suc 0))"
    by (rule loop_head.iterate [OF h0, where r = 0 and candidates = RHYTHM_POOL])
      (simp_all add: EPS_def RHYTHM_POOL_def constant_draws_def js_index_def)
  then have h1: "loop_head rand_call RHYTHM_POOL ?s0 ([1], 1, MathRandom (constant_draws 0) 1)"
    by simp
  have e: "(0::rat) < 1 - EPS" "\<not> (1::rat) < 1 - EPS" by (simp_all add: EPS_def)
  from corrective_branches_unreachable [OF u h0] corrective_branches_unreachable [OF u h1]
    u h0 h1 e
  show ?thesis by auto
qed

text \<open>
  C10. An empty seed string is no seed: \<open>makePRNG\<close> returns \<open>Math.random\<close> for it, as it
  does without a seed, the melody is the one generated without a seed, and it changes with
  the values \<open>Math.random\<close> returns, so two runs with the seed \<open>""\<close> and the same
  parameters can differ.
\<close>

theorem empty_seed_is_no_seed:
  "makePRNG Math_random (Some []) = MathRandom Math_random 0 \<and>
   makePRNG Math_random (Some []) = makePRNG Math_random None \<and>
   generateMelody Math_random (params\<lparr>seed := Some []\<rparr>) =
     generateMelody Math_random (params\<lparr>seed := None\<rparr>) \<and>
   generateMelody (constant_draws 0)
     \<lparr>measures = 1, tempo = 100, seed = Some [], lowMidi = 55, highMidi = 76\<rparr> =
     Some (Inr [\<lparr>midi = 58, name = ''A#3'', startBeats = 0, durationBeats = 4\<rparr>]) \<and>
   generateMelody (constant_draws (3 / 8))
     \<lparr>measures = 1, tempo = 100, seed = Some [], lowMidi = 55, highMidi = 76\<rparr> =
     Some (Inr [\<lparr>midi = 59, name = ''B3'', startBeats = 0, durationBeats = 2\<rparr>,
       \<lparr>midi = 58, name = ''A#3'', startBeats = 2, durationBeats = 1\<rparr>,
       \<lparr>midi = 57, name = ''A3'', startBeats = 3, durationBeats = 1 / 2\<rparr>,
       \<lparr>midi = 56, name = ''G#3'', startBeats = 7 / 2, durationBeats = 1 / 2\<rparr>])"
proof -
  have a: "makePRNG Math_random (Some []) = MathRandom Math_random 0"
    and b: "makePRNG Math_random (Some []) = makePRNG Math_random None"
    by (simp_all add: makePRNG_def)
  have c: "generateMelody Math_random (params\<lparr>seed := Some []\<rparr>) =
     generateMelody Math_random (params\<lparr>seed := None\<rparr>)"
    by (simp add: generateMelody_def b)
  have d: "generateMelody (constant_draws 0)
     \<lparr>measures = 1, tempo = 100, seed = Some [], lowMidi = 55, highMidi = 76\<rparr> =
     Some (Inr [\<lparr>midi = 58, name = ''A#3'', startBeats = 0, durationBeats = 4\<rparr>])"
    by code_simp
  have e: "generateMelody (constant_draws (3 / 8))
     \<lparr>measures = 1, tempo = 100, seed = Some [], lowMidi = 55, highMidi = 76\<rparr> =
     Some (Inr [\<lparr>midi = 59, name = ''B3'', startBeats = 0, durationBeats = 2\<rparr>,
       \<lparr>midi = 58, name = ''A#3'', startBeats = 2, durationBeats = 1\<rparr>,
       \<lparr>midi = 57, name = ''A3'', startBeats = 3, durationBeats = 1 / 2\<rparr>,
       \<lparr>midi = 56, name = ''G#3'', startBeats = 7 / 2, durationBeats = 1 / 2\<rparr>])"
    by code_simp
  from a b c d e show ?thesis by (intro conjI)
qed

end
